theory Spec2Isabelle
  imports Main
begin

section \<open>Text: Python strings as lists of code points\<close>

text \<open>
  A Python \<^verbatim>\<open>str\<close> is a sequence of Unicode code points. The prompt convention uses
  glyphs beyond ASCII (the checkbox marks U+2610 and U+2611, the selector U+276F), so a
  character is modelled as its code point, a natural number, and a string as a list of
  them. \<open>ascii\<close> turns an ASCII literal into such a list.
\<close>

type_synonym ustr = "nat list"

definition ascii :: "string \<Rightarrow> ustr" where
  "ascii s = map of_char s"

definition NL :: nat where "NL = 10"
definition ESC :: nat where "ESC = 27"
definition CHECKBOX_EMPTY :: nat where "CHECKBOX_EMPTY = 0x2610"
definition CHECKBOX_CHECKED :: nat where "CHECKBOX_CHECKED = 0x2611"
definition SELECTOR :: nat where "SELECTOR = 0x276F"
definition GT :: nat where "GT = 0x3E"

text \<open>
  \<^verbatim>\<open>str.isspace\<close>, \<^verbatim>\<open>str.strip()\<close> and the pattern class \<^verbatim>\<open>\s\<close> of a \<^verbatim>\<open>str\<close>
  pattern share one table of white-space code points.
\<close>

definition is_space :: "nat \<Rightarrow> bool" where
  "is_space c \<longleftrightarrow>
     (0x09 \<le> c \<and> c \<le> 0x0D) \<or> (0x1C \<le> c \<and> c \<le> 0x20) \<or> c = 0x85 \<or> c = 0xA0 \<or>
     c = 0x1680 \<or> (0x2000 \<le> c \<and> c \<le> 0x200A) \<or> c = 0x2028 \<or> c = 0x2029 \<or>
     c = 0x202F \<or> c = 0x205F \<or> c = 0x3000"

text \<open>
  The class \<^verbatim>\<open>\d\<close> of a \<^verbatim>\<open>str\<close> pattern is the Unicode category Nd, and \<^verbatim>\<open>int\<close>
  reads every such digit. The category consists of runs of ten code points with the
  values 0 to 9 in order; \<open>decimal_starts\<close> lists the first code point of each run
  (Unicode 14, the table of CPython 3.11).
\<close>

definition decimal_starts :: "nat list" where
  "decimal_starts =
    [0x30, 0x660, 0x6F0, 0x7C0, 0x966, 0x9E6, 0xA66, 0xAE6, 0xB66, 0xBE6, 0xC66, 0xCE6,
     0xD66, 0xDE6, 0xE50, 0xED0, 0xF20, 0x1040, 0x1090, 0x17E0, 0x1810, 0x1946, 0x19D0,
     0x1A80, 0x1A90, 0x1B50, 0x1BB0, 0x1C40, 0x1C50, 0xA620, 0xA8D0, 0xA900, 0xA9D0,
     0xA9F0, 0xAA50, 0xABF0, 0xFF10, 0x104A0, 0x10D30, 0x11066, 0x110F0, 0x11136,
     0x111D0, 0x112F0, 0x11450, 0x114D0, 0x11650, 0x116C0, 0x11730, 0x118E0, 0x11950,
     0x11C50, 0x11D50, 0x11DA0, 0x16A60, 0x16AC0, 0x16B50, 0x1D7CE, 0x1D7D8, 0x1D7E2,
     0x1D7EC, 0x1D7F6, 0x1E140, 0x1E2F0, 0x1E950, 0x1FBF0]"

definition decimal_run :: "nat \<Rightarrow> nat option" where
  "decimal_run c = find (\<lambda>s. s \<le> c \<and> c < s + 10) decimal_starts"

definition is_digit :: "nat \<Rightarrow> bool" where
  "is_digit c \<longleftrightarrow> decimal_run c \<noteq> None"

definition digit_value :: "nat \<Rightarrow> int" where
  "digit_value c = (case decimal_run c of Some s \<Rightarrow> int (c - s) | None \<Rightarrow> 0)"

text \<open>
  \<^verbatim>\<open>int(digits)\<close> on a non-empty run of decimal digits. Python's integers are
  unbounded, and so is \<open>int\<close>. (An interpreter may be configured to refuse very long
  digit strings; that setting is not part of the program.)
\<close>

definition py_int :: "ustr \<Rightarrow> int" where
  "py_int ds = foldl (\<lambda>acc c. acc * 10 + digit_value c) 0 ds"

text \<open>\<^verbatim>\<open>s.strip()\<close>: white space removed at both ends.\<close>

definition strip :: "ustr \<Rightarrow> ustr" where
  "strip s = rev (dropWhile is_space (rev (dropWhile is_space s)))"

text \<open>
  \<^verbatim>\<open>s.lower()\<close>. The only code points whose lower-case form contains an ASCII
  character are A to Z, U+0130 (to \<^verbatim>\<open>i\<close> followed by U+0307) and U+212A (to \<^verbatim>\<open>k\<close>).
  Every other code point is left as it is here: its real lower-case form has no ASCII
  character, and the program only looks for an ASCII phrase in the result.
\<close>

definition lower_cp :: "nat \<Rightarrow> ustr" where
  "lower_cp c =
     (if 0x41 \<le> c \<and> c \<le> 0x5A then [c + 32]
      else if c = 0x130 then [0x69, 0x307]
      else if c = 0x212A then [0x6B]
      else [c])"

definition lower :: "ustr \<Rightarrow> ustr" where
  "lower s = concat (map lower_cp s)"

text \<open>\<^verbatim>\<open>s.startswith(p)\<close> and the substring test \<^verbatim>\<open>p in s\<close>.\<close>

definition startswith :: "ustr \<Rightarrow> ustr \<Rightarrow> bool" where
  "startswith s p \<longleftrightarrow> take (length p) s = p"

fun py_in :: "ustr \<Rightarrow> ustr \<Rightarrow> bool" where
  "py_in p [] \<longleftrightarrow> p = []"
| "py_in p (c # cs) \<longleftrightarrow> startswith (c # cs) p \<or> py_in p cs"

text \<open>\<^verbatim>\<open>s.split('\n')\<close>: never empty, one more piece than there are newlines.\<close>

fun split_nl :: "ustr \<Rightarrow> ustr list" where
  "split_nl [] = [[]]"
| "split_nl (c # cs) =
     (if c = NL then [] # split_nl cs
      else (case split_nl cs of
              [] \<Rightarrow> [[c]]
            | l # ls \<Rightarrow> (c # l) # ls))"

text \<open>\<^verbatim>\<open>'\n'.join(lines)\<close>.\<close>

fun join_nl :: "ustr list \<Rightarrow> ustr" where
  "join_nl [] = []"
| "join_nl [l] = l"
| "join_nl (l # ls) = l @ NL # join_nl ls"

section \<open>Regular expressions\<close>

text \<open>
  The patterns of the program use character classes, greedy repetition of a class,
  sequence, alternation, capturing groups and the end anchor. \<open>rx_run r s\<close> lists
  every way \<open>r\<close> matches a prefix of \<open>s\<close>, in the order in which a backtracking matcher
  tries them: the text matched, the groups captured (in order of their opening
  parenthesis) and the rest of the input. The first element is the match \<^verbatim>\<open>re\<close>
  reports.
\<close>

datatype rx =
    Cls "nat \<Rightarrow> bool"
  | Star "nat \<Rightarrow> bool"
  | Plus "nat \<Rightarrow> bool"
  | Opt "nat \<Rightarrow> bool"
  | Seq rx rx
  | Alt rx rx
  | Grp rx
  | Eos

text \<open>The runs of a class at the start of the input, longest first.\<close>

fun star_runs :: "(nat \<Rightarrow> bool) \<Rightarrow> ustr \<Rightarrow> (ustr \<times> ustr) list" where
  "star_runs p [] = [([], [])]"
| "star_runs p (c # cs) =
     (if p c then map (\<lambda>(t, r). (c # t, r)) (star_runs p cs) else []) @ [([], c # cs)]"

fun rx_run :: "rx \<Rightarrow> ustr \<Rightarrow> (ustr \<times> ustr list \<times> ustr) list" where
  "rx_run (Cls p) s =
     (case s of [] \<Rightarrow> [] | c # cs \<Rightarrow> if p c then [([c], [], cs)] else [])"
| "rx_run (Star p) s = map (\<lambda>(t, r). (t, [], r)) (star_runs p s)"
| "rx_run (Plus p) s =
     map (\<lambda>(t, r). (t, [], r)) (filter (\<lambda>(t, r). t \<noteq> []) (star_runs p s))"
| "rx_run (Opt p) s =
     (case s of [] \<Rightarrow> [] | c # cs \<Rightarrow> if p c then [([c], [], cs)] else []) @ [([], [], s)]"
| "rx_run (Seq a b) s =
     concat (map (\<lambda>(t1, g1, r1).
                    map (\<lambda>(t2, g2, r2). (t1 @ t2, g1 @ g2, r2)) (rx_run b r1))
                 (rx_run a s))"
| "rx_run (Alt a b) s = rx_run a s @ rx_run b s"
| "rx_run (Grp a) s = map (\<lambda>(t, g, r). (t, t # g, r)) (rx_run a s)"
| "rx_run Eos s = (if s = [] \<or> s = [NL] then [([], [], s)] else [])"

text \<open>\<^verbatim>\<open>re.match\<close>: the pattern at the start of the string; the result is the text
  matched and the groups.\<close>

definition re_match :: "rx \<Rightarrow> ustr \<Rightarrow> (ustr \<times> ustr list) option" where
  "re_match r s = (case rx_run r s of [] \<Rightarrow> None | (t, g, _) # _ \<Rightarrow> Some (t, g))"

text \<open>\<^verbatim>\<open>re.search\<close>: the leftmost position at which the pattern matches.\<close>

fun re_search :: "rx \<Rightarrow> ustr \<Rightarrow> (ustr \<times> ustr list) option" where
  "re_search r [] = re_match r []"
| "re_search r (c # cs) =
     (case re_match r (c # cs) of Some m \<Rightarrow> Some m | None \<Rightarrow> re_search r cs)"

text \<open>The character classes of the patterns.\<close>

definition in_range :: "nat \<Rightarrow> nat \<Rightarrow> nat \<Rightarrow> bool" where
  "in_range lo hi c \<longleftrightarrow> lo \<le> c \<and> c \<le> hi"

definition is_char :: "nat \<Rightarrow> nat \<Rightarrow> bool" where
  "is_char a c \<longleftrightarrow> c = a"

definition any_char :: "nat \<Rightarrow> bool" where
  \<comment> \<open>the dot: every character but the newline\<close>
  "any_char c \<longleftrightarrow> c \<noteq> NL"

definition is_checkbox :: "nat \<Rightarrow> bool" where
  "is_checkbox c \<longleftrightarrow> c = CHECKBOX_EMPTY \<or> c = CHECKBOX_CHECKED"

definition is_selector :: "nat \<Rightarrow> bool" where
  "is_selector c \<longleftrightarrow> c = SELECTOR \<or> c = GT"

definition is_selector_or_space :: "nat \<Rightarrow> bool" where
  "is_selector_or_space c \<longleftrightarrow> c = SELECTOR \<or> c = GT \<or> is_space c"

definition is_fe_byte :: "nat \<Rightarrow> bool" where
  \<comment> \<open>the class \<^verbatim>\<open>[@-Z\\-_]\<close>\<close>
  "is_fe_byte c \<longleftrightarrow> in_range 0x40 0x5A c \<or> in_range 0x5C 0x5F c"

section \<open>strip\_ansi\<close>

text \<open>
  The pattern \<^verbatim>\<open>\x1B(?:[@-Z\\-_]|\[[0-?]*[ -/]*[@-~])\<close>: an escape character followed
  by one byte of \<^verbatim>\<open>@\<close> to \<^verbatim>\<open>Z\<close> or backslash to underscore, or by an opening bracket,
  parameter bytes, intermediate bytes and one final byte.
\<close>

definition ansi_escape :: rx where
  "ansi_escape =
     Seq (Cls (is_char ESC))
         (Alt (Cls is_fe_byte)
              (Seq (Cls (is_char 0x5B))
                   (Seq (Star (in_range 0x30 0x3F))
                        (Seq (Star (in_range 0x20 0x2F))
                             (Cls (in_range 0x40 0x7E))))))"

text \<open>
  \<^verbatim>\<open>ansi_escape.sub('', text)\<close>: from left to right, a match at the current position
  is dropped, any other character is kept. A match of this pattern starts with the
  escape character, so it is never empty; the branch for an empty match keeps the
  character and goes on.
\<close>

function strip_ansi :: "ustr \<Rightarrow> ustr" where
  "strip_ansi [] = []"
| "strip_ansi (c # cs) =
     (case re_match ansi_escape (c # cs) of
        None \<Rightarrow> c # strip_ansi cs
      | Some (t, g) \<Rightarrow>
          if t = [] then c # strip_ansi cs
          else strip_ansi (drop (length t) (c # cs)))"
  by pat_completeness auto
termination
  by (relation "measure length") (auto simp: Suc_le_eq)

declare strip_ansi.simps(2) [simp del]

text \<open>
  What follows a complete CSI sequence, for the text \<open>rest\<close> after the opening bracket:
  the parameter bytes and then the intermediate bytes are passed over, and the next
  character has to be a final byte. \<open>None\<close> when the sequence is not completed.
\<close>

definition csi_rest :: "ustr \<Rightarrow> ustr option" where
  "csi_rest rest =
     (case dropWhile (in_range 0x20 0x2F) (dropWhile (in_range 0x30 0x3F) rest) of
        [] \<Rightarrow> None
      | f # cs \<Rightarrow> if in_range 0x40 0x7E f then Some cs else None)"


section \<open>parse\_multiple\_choice\<close>

record QuestionOption =
  number :: int
  label :: ustr
  description :: ustr
  is_selected :: bool
  is_text_input :: bool

record DetectedQuestion =
  header :: ustr
  question :: ustr
  options :: "QuestionOption list"
  selected_index :: int
  has_text_option :: bool

text \<open>The header pattern: a character class of the two checkbox glyphs, then
  \<^verbatim>\<open>\s*(.+)\<close>.\<close>

definition header_rx :: rx where
  "header_rx = Seq (Cls is_checkbox) (Seq (Star is_space) (Grp (Plus any_char)))"

text \<open>The pattern that ends the search for the question: any number of selector glyphs
  (U+276F or \<^verbatim>\<open>>\<close>) and white space, then \<^verbatim>\<open>\d+\.\<close>, at the start of the line.\<close>

definition option_start_rx :: rx where
  "option_start_rx = Seq (Star is_selector_or_space) (Seq (Plus is_digit) (Cls (is_char 0x2E)))"

text \<open>The pattern of an option line, \<^verbatim>\<open>^(\s*S?\s*)(\d+)\.\s*(.+)$\<close>, where \<^verbatim>\<open>S\<close> is the
  class of the two selector glyphs.\<close>

definition option_rx :: rx where
  "option_rx =
     Seq (Grp (Seq (Star is_space) (Seq (Opt is_selector) (Star is_space))))
         (Seq (Grp (Plus is_digit))
              (Seq (Cls (is_char 0x2E))
                   (Seq (Star is_space)
                        (Seq (Grp (Plus any_char)) Eos))))"

definition option_match :: "ustr \<Rightarrow> (ustr \<times> ustr \<times> ustr) option" where
  "option_match line =
     (case re_match option_rx line of
        Some (_, [prefix, digits, rest]) \<Rightarrow> Some (prefix, digits, rest)
      | _ \<Rightarrow> None)"

text \<open>
  The first loop: the first line that holds a checkbox glyph and on which the header
  pattern matches gives the header and its index. \<open>None\<close> is the source's
  \<^verbatim>\<open>header_idx == -1\<close>.
\<close>

fun find_header :: "ustr list \<Rightarrow> nat \<Rightarrow> (ustr \<times> nat) option" where
  "find_header [] i = None"
| "find_header (line # rest) i =
     (if CHECKBOX_EMPTY \<in> set line \<or> CHECKBOX_CHECKED \<in> set line then
        (case re_search header_rx line of
           Some (_, g # _) \<Rightarrow> Some (strip g, i)
         | _ \<Rightarrow> find_header rest (Suc i))
      else find_header rest (Suc i))"

text \<open>
  The second loop, over the indices \<^verbatim>\<open>range(header_idx + 1, min(header_idx + 10,
  len(lines)))\<close>: blank lines are skipped, an option line ends the search without a
  question, and the first other line that does not start with the footer phrase is the
  question.
\<close>

fun find_question :: "ustr list \<Rightarrow> nat list \<Rightarrow> (ustr \<times> nat) option" where
  "find_question lines [] = None"
| "find_question lines (i # is) =
     (let line = strip (lines ! i) in
      if line = [] then find_question lines is
      else if re_match option_start_rx line \<noteq> None then None
      else if \<not> startswith line (ascii ''Enter to select'') then Some (line, i)
      else find_question lines is)"

text \<open>
  The third loop. Its state is the list of finished options, the selected index and the
  option in progress.
\<close>

type_synonym scan_state = "QuestionOption list \<times> int \<times> QuestionOption option"

definition add_description :: "QuestionOption \<Rightarrow> ustr \<Rightarrow> QuestionOption" where
  "add_description opt desc =
     (if description opt \<noteq> [] then opt\<lparr>description := description opt @ [0x20] @ desc\<rparr>
      else opt\<lparr>description := desc\<rparr>)"

fun scan_options :: "ustr list \<Rightarrow> scan_state \<Rightarrow> scan_state" where
  "scan_options [] st = st"
| "scan_options (line # rest) (opts, sel, cur) =
     (if py_in (ascii ''Enter to select'') line \<or> py_in (ascii ''Tab/Arrow'') line
      then (opts, sel, cur)
      else
        (case option_match line of
           Some (prefix, digits, rest_text) \<Rightarrow>
             (let opts' = (case cur of Some c \<Rightarrow> opts @ [c] | None \<Rightarrow> opts);
                  lab = strip rest_text;
                  selected = (SELECTOR \<in> set prefix \<or> GT \<in> set prefix);
                  text_input = py_in (ascii ''type something'') (lower lab);
                  sel' = (if selected then int (length opts') else sel)
              in scan_options rest
                   (opts', sel',
                    Some \<lparr>number = py_int digits, label = lab, description = [],
                          is_selected = selected, is_text_input = text_input\<rparr>))
         | None \<Rightarrow>
             (case cur of
                Some c \<Rightarrow>
                  if strip line \<noteq> []
                  then scan_options rest (opts, sel, Some (add_description c (strip line)))
                  else scan_options rest (opts, sel, cur)
              | None \<Rightarrow> scan_options rest (opts, sel, cur))))"

definition parse_multiple_choice :: "ustr \<Rightarrow> DetectedQuestion option" where
  "parse_multiple_choice screen_text =
     (let lines = split_nl screen_text in
      case find_header lines 0 of
        None \<Rightarrow> None
      | Some (hdr, header_idx) \<Rightarrow>
          (case find_question lines
                  [Suc header_idx ..< min (header_idx + 10) (length lines)] of
             None \<Rightarrow> None
           | Some (q, question_idx) \<Rightarrow>
               (case scan_options (drop (Suc question_idx) lines) ([], 0, None) of
                  (opts, sel, cur) \<Rightarrow>
                    (let opts' = (case cur of Some c \<Rightarrow> opts @ [c] | None \<Rightarrow> opts) in
                     if opts' = [] then None
                     else Some \<lparr>header = hdr, question = q, options = opts',
                                selected_index = sel,
                                has_text_option = list_ex is_text_input opts'\<rparr>))))"

section \<open>Sessions\<close>

text \<open>
  The terminal transport is outside the program. A session is its identifier and what a
  read of its screen gives at the moment of the read: the rows of the screen, or
  \<open>None\<close> when \<^verbatim>\<open>async_get_screen_contents\<close> raises. The application is the nesting
  the program iterates over: windows, their tabs, their sessions.
\<close>

record session =
  session_id :: ustr
  contents :: "ustr list option"

type_synonym app = "session list list list"

definition get_screen_text :: "session \<Rightarrow> ustr option" where
  "get_screen_text s = map_option join_nl (contents s)"

text \<open>
  The identifier of the caller's own session: the value of \<^verbatim>\<open>ITERM_SESSION_ID\<close>, cut
  after its first colon when it has one (\<^verbatim>\<open>split(':', 1)[1]\<close>). The module exits at
  import when the variable is unset or empty.
\<close>

definition own_session_id :: "ustr \<Rightarrow> ustr" where
  "own_session_id env =
     (if 0x3A \<in> set env then tl (dropWhile (\<lambda>c. c \<noteq> 0x3A) env) else env)"

subsection \<open>find\_claude\_session\<close>

fun find_in_sessions :: "ustr \<Rightarrow> session list \<Rightarrow> session option" where
  "find_in_sessions own [] = None"
| "find_in_sessions own (s # rest) =
     (if session_id s = own then find_in_sessions own rest
      else
        (case get_screen_text s of
           None \<Rightarrow> find_in_sessions own rest
         | Some screen_text \<Rightarrow>
             if SELECTOR \<in> set screen_text \<or> CHECKBOX_EMPTY \<in> set screen_text then Some s
             else find_in_sessions own rest))"

fun find_in_tabs :: "ustr \<Rightarrow> session list list \<Rightarrow> session option" where
  "find_in_tabs own [] = None"
| "find_in_tabs own (tab # rest) =
     (case find_in_sessions own tab of
        Some s \<Rightarrow> Some s
      | None \<Rightarrow> find_in_tabs own rest)"

fun find_in_windows :: "ustr \<Rightarrow> app \<Rightarrow> session option" where
  "find_in_windows own [] = None"
| "find_in_windows own (window # rest) =
     (case find_in_tabs own window of
        Some s \<Rightarrow> Some s
      | None \<Rightarrow> find_in_windows own rest)"

definition find_claude_session :: "ustr \<Rightarrow> app \<Rightarrow> session option" where
  "find_claude_session env a = find_in_windows (own_session_id env) a"

text \<open>
  The test a session has to pass to be returned: it is not the caller's own, its screen
  can be read, and the text holds the selector or the unchecked checkbox.
\<close>

definition prompt_like :: "ustr \<Rightarrow> session \<Rightarrow> bool" where
  "prompt_like own s \<longleftrightarrow>
     session_id s \<noteq> own \<and>
     (case get_screen_text s of
        None \<Rightarrow> False
      | Some screen_text \<Rightarrow> SELECTOR \<in> set screen_text \<or> CHECKBOX_EMPTY \<in> set screen_text)"

text \<open>
  \<^verbatim>\<open>app.get_session_by_id\<close> belongs to the terminal's library: the session with that
  identifier, if there is one.
\<close>

definition get_session_by_id :: "app \<Rightarrow> ustr \<Rightarrow> session option" where
  "get_session_by_id a sid = find (\<lambda>s. session_id s = sid) (concat (concat a))"

section \<open>send\_answer\<close>

text \<open>
  What \<^verbatim>\<open>send_answer\<close> does to the session is the list of texts it passes to
  \<^verbatim>\<open>async_send_text\<close>, in order; the pauses between them are not modelled, and a send
  is taken to succeed. Its value is one of the dictionaries it returns, or \<open>Raised\<close>
  when the read of the screen raises, which \<^verbatim>\<open>send_answer\<close> does not catch.
\<close>

datatype answer_error = no_claude_session | no_question | invalid_choice | no_action

datatype answer_result =
    Error answer_error
  | typed_text ustr
  | selected_option int ustr
  | Raised

definition KEY_DOWN :: ustr where "KEY_DOWN = [0x1B, 0x5B, 0x42]"
definition KEY_UP :: ustr where "KEY_UP = [0x1B, 0x5B, 0x41]"
definition ENTER :: ustr where "ENTER = [0x0D]"

text \<open>The two loops that walk the selection \<open>moves\<close> places down, or up.\<close>

definition navigate :: "int \<Rightarrow> ustr list" where
  "navigate moves =
     (if moves > 0 then replicate (nat moves) KEY_DOWN
      else if moves < 0 then replicate (nat \<bar>moves\<bar>) KEY_UP
      else [])"

text \<open>The index of the first option that is the free-text one.\<close>

fun first_text_option :: "QuestionOption list \<Rightarrow> nat \<Rightarrow> nat option" where
  "first_text_option [] i = None"
| "first_text_option (opt # rest) i =
     (if is_text_input opt then Some i else first_text_option rest (Suc i))"

definition answer_with_text :: "DetectedQuestion \<Rightarrow> ustr \<Rightarrow> answer_result \<times> ustr list" where
  "answer_with_text q t =
     (let nav = (case first_text_option (options q) 0 of
                   Some text_option_idx \<Rightarrow> navigate (int text_option_idx - selected_index q)
                 | None \<Rightarrow> [])
      in (typed_text t, nav @ [ENTER, t, ENTER]))"

definition answer_with_choice ::
  "DetectedQuestion \<Rightarrow> int option \<Rightarrow> answer_result \<times> ustr list" where
  "answer_with_choice q choice =
     (case choice of
        None \<Rightarrow> (Error no_action, [])
      | Some ch \<Rightarrow>
          (let target_idx = ch - 1 in
           if target_idx < 0 \<or> target_idx \<ge> int (length (options q))
           then (Error invalid_choice, [])
           else (selected_option ch (label (options q ! nat target_idx)),
                 navigate (target_idx - selected_index q) @ [ENTER])))"

text \<open>
  The part of \<^verbatim>\<open>send_answer\<close> after the question is detected. \<^verbatim>\<open>if text:\<close> holds for
  a text that is neither absent nor empty, and then the choice is not looked at.
\<close>

definition answer_question ::
  "DetectedQuestion \<Rightarrow> int option \<Rightarrow> ustr option \<Rightarrow> answer_result \<times> ustr list" where
  "answer_question q choice text =
     (case text of
        Some t \<Rightarrow> if t \<noteq> [] then answer_with_text q t else answer_with_choice q choice
      | None \<Rightarrow> answer_with_choice q choice)"

text \<open>The session an operation works on: the one asked for, or else the one found.\<close>

definition target_session :: "ustr \<Rightarrow> app \<Rightarrow> ustr option \<Rightarrow> session option" where
  "target_session env a target_session_id =
     (case target_session_id of
        Some sid \<Rightarrow> if sid \<noteq> [] then get_session_by_id a sid else find_claude_session env a
      | None \<Rightarrow> find_claude_session env a)"

definition send_answer ::
  "ustr \<Rightarrow> app \<Rightarrow> int option \<Rightarrow> ustr option \<Rightarrow> ustr option \<Rightarrow> answer_result \<times> ustr list" where
  "send_answer env a choice text target_session_id =
     (case target_session env a target_session_id of
        None \<Rightarrow> (Error no_claude_session, [])
      | Some s \<Rightarrow>
          (case get_screen_text s of
             None \<Rightarrow> (Raised, [])
           | Some screen_text \<Rightarrow>
               (case parse_multiple_choice (strip_ansi screen_text) of
                  None \<Rightarrow> (Error no_question, [])
                | Some q \<Rightarrow> answer_question q choice text)))"

subsection \<open>The plan of the specification\<close>

text \<open>
  The specification describes the keys as a plan of actions that a caller replays. The
  program has no such value; the two are compared through \<open>replay\<close>, which sends one key
  for each step of a move, the confirmation key for \<open>Confirm\<close> and the text itself for
  \<open>EmitText\<close>. \<open>spec_plan_option\<close> follows the specification's words for an option
  target.
\<close>

datatype direction = up | down

datatype NavigationAction = MoveSelection direction nat | Confirm | EmitText ustr

fun replay_action :: "NavigationAction \<Rightarrow> ustr list" where
  "replay_action (MoveSelection down n) = replicate n KEY_DOWN"
| "replay_action (MoveSelection up n) = replicate n KEY_UP"
| "replay_action Confirm = [ENTER]"
| "replay_action (EmitText t) = [t]"

definition replay :: "NavigationAction list \<Rightarrow> ustr list" where
  "replay plan = concat (map replay_action plan)"

definition spec_plan_option :: "int \<Rightarrow> int \<Rightarrow> NavigationAction list" where
  "spec_plan_option selectedIndex targetIndex =
     (let delta = targetIndex - selectedIndex in
      (if delta > 0 then [MoveSelection down (nat delta)]
       else if delta < 0 then [MoveSelection up (nat (- delta))]
       else []) @ [Confirm])"

section \<open>watch\_for\_questions\<close>

text \<open>
  The state of the watch loop is the set of keys already reported and the events printed
  so far. A key is the text \<^verbatim>\<open>f"{session.session_id}:{question.question}"\<close>. The loop
  has no end of its own; the model runs it over the finite list of what the application
  shows at successive ticks, and stops early on the \<^verbatim>\<open>return\<close> of \<^verbatim>\<open>--once\<close>.
\<close>

record watch_state =
  seen_questions :: "ustr set"
  printed :: "(ustr \<times> DetectedQuestion) list"

definition question_key :: "session \<Rightarrow> DetectedQuestion \<Rightarrow> ustr" where
  "question_key s q = session_id s @ [0x3A] @ question q"

text \<open>
  The question the watch loop sees in a session, if any: none in the caller's own
  session, none when the read raises, else what the parser finds on the cleaned screen.
\<close>

definition session_question :: "ustr \<Rightarrow> session \<Rightarrow> DetectedQuestion option" where
  "session_question own s =
     (if session_id s = own then None
      else (case get_screen_text s of
              None \<Rightarrow> None
            | Some screen_text \<Rightarrow> parse_multiple_choice (strip_ansi screen_text)))"

text \<open>The body of the innermost loop; the flag says that the function returned.\<close>

definition watch_session :: "ustr \<Rightarrow> bool \<Rightarrow> session \<Rightarrow> watch_state \<Rightarrow> watch_state \<times> bool" where
  "watch_session own once s st =
     (if session_id s = own then (st, False)
      else
        (case get_screen_text s of
           None \<Rightarrow> (st, False)
         | Some screen_text \<Rightarrow>
             (case parse_multiple_choice (strip_ansi screen_text) of
                None \<Rightarrow> (st, False)
              | Some q \<Rightarrow>
                  if question_key s q \<notin> seen_questions st
                  then (st\<lparr>seen_questions := insert (question_key s q) (seen_questions st),
                           printed := printed st @ [(session_id s, q)]\<rparr>, once)
                  else (st, False))))"

fun watch_sessions :: "ustr \<Rightarrow> bool \<Rightarrow> session list \<Rightarrow> watch_state \<Rightarrow> watch_state \<times> bool" where
  "watch_sessions own once [] st = (st, False)"
| "watch_sessions own once (s # rest) st =
     (case watch_session own once s st of
        (st', True) \<Rightarrow> (st', True)
      | (st', False) \<Rightarrow> watch_sessions own once rest st')"

fun watch_tabs :: "ustr \<Rightarrow> bool \<Rightarrow> session list list \<Rightarrow> watch_state \<Rightarrow> watch_state \<times> bool" where
  "watch_tabs own once [] st = (st, False)"
| "watch_tabs own once (tab # rest) st =
     (case watch_sessions own once tab st of
        (st', True) \<Rightarrow> (st', True)
      | (st', False) \<Rightarrow> watch_tabs own once rest st')"

fun watch_windows :: "ustr \<Rightarrow> bool \<Rightarrow> app \<Rightarrow> watch_state \<Rightarrow> watch_state \<times> bool" where
  "watch_windows own once [] st = (st, False)"
| "watch_windows own once (window # rest) st =
     (case watch_tabs own once window st of
        (st', True) \<Rightarrow> (st', True)
      | (st', False) \<Rightarrow> watch_windows own once rest st')"

fun watch_ticks :: "ustr \<Rightarrow> bool \<Rightarrow> app list \<Rightarrow> watch_state \<Rightarrow> watch_state" where
  "watch_ticks own once [] st = st"
| "watch_ticks own once (a # later) st =
     (case watch_windows own once a st of
        (st', True) \<Rightarrow> st'
      | (st', False) \<Rightarrow> watch_ticks own once later st')"

definition watch_for_questions :: "ustr \<Rightarrow> bool \<Rightarrow> app list \<Rightarrow> watch_state" where
  "watch_for_questions env once ticks =
     watch_ticks (own_session_id env) once ticks \<lparr>seen_questions = {}, printed = []\<rparr>"

section \<open>The documented example\<close>

text \<open>
  The screen of the documented scenario: the header line with the unchecked checkbox, the
  question, three options of which the first carries the selector and a description line,
  and the footer (its separators are the middle dot U+00B7).
\<close>

definition example_screen :: ustr where
  "example_screen =
     [0x2610] @ ascii '' Next task'' @ [10, 10] @
     ascii ''What should I work on?'' @ [10, 10] @
     [0x276F] @ ascii '' 1. Fix the bug'' @ [10] @
     ascii ''     Investigate the crash'' @ [10] @
     ascii ''  2. Write tests'' @ [10] @
     ascii ''  3. Type something.'' @ [10, 10] @
     ascii ''Enter to select '' @ [0xB7] @ ascii '' Tab/Arrow keys to navigate '' @ [0xB7] @
     ascii '' Esc to cancel''"

definition example_question :: DetectedQuestion where
  "example_question =
     \<lparr>header = ascii ''Next task'', question = ascii ''What should I work on?'',
      options =
        [\<lparr>number = 1, label = ascii ''Fix the bug'',
          description = ascii ''Investigate the crash'',
          is_selected = True, is_text_input = False\<rparr>,
         \<lparr>number = 2, label = ascii ''Write tests'', description = [],
          is_selected = False, is_text_input = False\<rparr>,
         \<lparr>number = 3, label = ascii ''Type something.'', description = [],
          is_selected = False, is_text_input = True\<rparr>],
      selected_index = 0, has_text_option = True\<rparr>"

text \<open>A session that shows the example screen, in an application of one window and tab.\<close>

definition example_session :: session where
  "example_session = \<lparr>session_id = ascii ''S1'', contents = Some (split_nl example_screen)\<rparr>"

definition example_app :: app where
  "example_app = [[[example_session]]]"

text \<open>The caller's own session is another one.\<close>

definition example_env :: ustr where
  "example_env = ascii ''w0t0p0:OWN''"

text \<open>
  A session whose screen cannot be read, in a window of its own before the window of the
  example session.
\<close>

definition failing_session :: session where
  "failing_session = \<lparr>session_id = ascii ''S0'', contents = None\<rparr>"

definition failing_app :: app where
  "failing_app = [[[failing_session]], [[], [example_session]]]"

text \<open>A screen on which no option carries the selector, and what it parses to.\<close>

definition unmarked_screen :: ustr where
  "unmarked_screen =
     [0x2611] @ ascii '' Pick'' @ [10] @ ascii ''Which one?'' @ [10] @
     ascii ''  1. Left'' @ [10] @ ascii ''  2. Right''"

definition unmarked_question :: DetectedQuestion where
  "unmarked_question =
     \<lparr>header = ascii ''Pick'', question = ascii ''Which one?'',
      options =
        [\<lparr>number = 1, label = ascii ''Left'', description = [],
          is_selected = False, is_text_input = False\<rparr>,
         \<lparr>number = 2, label = ascii ''Right'', description = [],
          is_selected = False, is_text_input = False\<rparr>],
      selected_index = 0, has_text_option = False\<rparr>"

section \<open>The invariant of the option loop\<close>

text \<open>
  \<open>finished\<close> is the list of options the loop would return from a state: the finished
  ones and the one in progress. The invariant: there are finished options only once one
  is in progress, and the selected index is 0 or the position of an option that carries
  the selector.
\<close>

definition finished :: "scan_state \<Rightarrow> QuestionOption list" where
  "finished st = (case st of (opts, sel, cur) \<Rightarrow>
                    (case cur of Some c \<Rightarrow> opts @ [c] | None \<Rightarrow> opts))"

definition scan_inv :: "scan_state \<Rightarrow> bool" where
  "scan_inv st \<longleftrightarrow>
     (case st of (opts, sel, cur) \<Rightarrow>
        (cur = None \<longrightarrow> opts = []) \<and> 0 \<le> sel \<and>
        (sel = 0 \<or> (sel < int (length (finished st)) \<and> is_selected (finished st ! nat sel))))"

section \<open>Evaluation\<close>

lemmas class_defs =
  is_space_def is_digit_def decimal_run_def decimal_starts_def is_char_def any_char_def
  is_checkbox_def is_selector_def is_selector_or_space_def is_fe_byte_def in_range_def
  NL_def ESC_def CHECKBOX_EMPTY_def CHECKBOX_CHECKED_def SELECTOR_def GT_def

lemmas parse_defs =
  parse_multiple_choice_def option_match_def re_match_def option_rx_def header_rx_def
  option_start_rx_def ascii_def strip_def lower_def lower_cp_def startswith_def py_int_def
  digit_value_def add_description_def

section \<open>The parser on the documented example\<close>

lemma parse_example: "parse_multiple_choice example_screen = Some example_question"
  by (simp add: example_screen_def example_question_def parse_defs class_defs upt_rec)

text \<open>
  C1. The documented example screen parses to a question with header "Next task", body
  "What should I work on?", exactly three options in display order, selected index 0,
  the description "Investigate the crash" on the first option, the third option flagged
  as the free-text one, and the free-text flag of the question set.
\<close>

theorem parse_example_screen:
  "parse_multiple_choice example_screen = Some example_question
   \<and> header example_question = ascii ''Next task''
   \<and> question example_question = ascii ''What should I work on?''
   \<and> length (options example_question) = 3
   \<and> map number (options example_question) = [1, 2, 3]
   \<and> map label (options example_question) =
       [ascii ''Fix the bug'', ascii ''Write tests'', ascii ''Type something.'']
   \<and> selected_index example_question = 0
   \<and> description (options example_question ! 0) = ascii ''Investigate the crash''
   \<and> is_text_input (options example_question ! 2)
   \<and> has_text_option example_question"
proof -
  note parse_example
  moreover have "header example_question = ascii ''Next task''"
    and "question example_question = ascii ''What should I work on?''"
    and "length (options example_question) = 3"
    and "map number (options example_question) = [1, 2, 3]"
    and "map label (options example_question) =
          [ascii ''Fix the bug'', ascii ''Write tests'', ascii ''Type something.'']"
    and "selected_index example_question = 0"
    and "description (options example_question ! 0) = ascii ''Investigate the crash''"
    and "is_text_input (options example_question ! 2)"
    and "has_text_option example_question"
    by (simp_all add: example_question_def)
  ultimately show ?thesis by blast
qed

section \<open>Keys sent for an option target\<close>

lemma count_list_replicate:
  "count_list (replicate n x) y = (if x = y then n else 0)"
  by (induction n) auto

lemma keys_distinct:
  "KEY_DOWN \<noteq> KEY_UP" "KEY_DOWN \<noteq> ENTER" "KEY_UP \<noteq> ENTER"
  by (simp_all add: KEY_DOWN_def KEY_UP_def ENTER_def)

lemma navigate_replay:
  "navigate (t - s) @ [ENTER] = replay (spec_plan_option s t)"
  by (simp add: navigate_def replay_def spec_plan_option_def Let_def)

lemma navigate_net:
  "int (count_list (navigate m) KEY_DOWN) - int (count_list (navigate m) KEY_UP) = m"
  using keys_distinct by (auto simp: navigate_def count_list_replicate)

lemma navigate_no_enter: "count_list (navigate m) ENTER = 0"
  using keys_distinct by (auto simp: navigate_def count_list_replicate)

text \<open>
  C2. For a question with N options and a target index \<open>t\<close> in [0, N) (the 1-based choice
  \<open>t + 1\<close>, no text), the keys sent are the replay of the specification's plan: one move
  down by \<open>delta = t - selected_index\<close> if \<open>delta > 0\<close>, one move up by \<open>-delta\<close> if
  \<open>delta < 0\<close>, no move if \<open>delta = 0\<close>, followed by one Confirm. Hence the number of down
  keys minus the number of up keys is \<open>t - selected_index\<close>, and the confirmation key is
  sent exactly once, last.
\<close>

theorem option_target_keys:
  assumes "0 \<le> t" and "t < int (length (options q))"
  shows "snd (answer_question q (Some (t + 1)) None)
           = replay (spec_plan_option (selected_index q) t)
       \<and> spec_plan_option (selected_index q) t =
           (if t - selected_index q > 0
            then [MoveSelection down (nat (t - selected_index q)), Confirm]
            else if t - selected_index q < 0
            then [MoveSelection up (nat (selected_index q - t)), Confirm]
            else [Confirm])
       \<and> int (count_list (snd (answer_question q (Some (t + 1)) None)) KEY_DOWN)
           - int (count_list (snd (answer_question q (Some (t + 1)) None)) KEY_UP)
           = t - selected_index q
       \<and> count_list (snd (answer_question q (Some (t + 1)) None)) ENTER = 1
       \<and> last (snd (answer_question q (Some (t + 1)) None)) = ENTER"
proof -
  have keys: "snd (answer_question q (Some (t + 1)) None)
                = navigate (t - selected_index q) @ [ENTER]"
    using assms by (simp add: answer_question_def answer_with_choice_def)
  have plan: "spec_plan_option (selected_index q) t =
           (if t - selected_index q > 0
            then [MoveSelection down (nat (t - selected_index q)), Confirm]
            else if t - selected_index q < 0
            then [MoveSelection up (nat (selected_index q - t)), Confirm]
            else [Confirm])"
    by (simp add: spec_plan_option_def Let_def)
  have net: "int (count_list (navigate (t - selected_index q) @ [ENTER]) KEY_DOWN)
             - int (count_list (navigate (t - selected_index q) @ [ENTER]) KEY_UP)
             = t - selected_index q"
    using navigate_net [of "t - selected_index q"] keys_distinct by simp
  have one: "count_list (navigate (t - selected_index q) @ [ENTER]) ENTER = 1"
    by (simp add: navigate_no_enter)
  have lst: "last (navigate (t - selected_index q) @ [ENTER]) = ENTER"
    by simp
  show ?thesis
    unfolding keys
    by (intro conjI) (rule navigate_replay, rule plan, rule net, rule one, rule lst)
qed

theorem option_target_keys_witness:
  "snd (answer_question example_question (Some 2) None) = [KEY_DOWN, ENTER]
   \<and> spec_plan_option 0 1 = [MoveSelection down 1, Confirm]"
  using option_target_keys [of 1 example_question]
  by (simp add: example_question_def replay_def)

section \<open>Choices out of range\<close>

text \<open>
  C4. For a question with N options and an option target (a choice, and no text): when
  the 1-based choice is outside [1, N], that is the index outside [0, N), the answer is
  the error \<open>invalid_choice\<close>; when it is inside, the answer is not an error but the
  selected option.
\<close>

theorem choice_in_range_iff:
  assumes "text = None \<or> text = Some []"
  shows "(ch - 1 < 0 \<or> int (length (options q)) \<le> ch - 1
            \<longrightarrow> fst (answer_question q (Some ch) text) = Error invalid_choice)
       \<and> (0 \<le> ch - 1 \<and> ch - 1 < int (length (options q))
            \<longrightarrow> fst (answer_question q (Some ch) text)
                  = selected_option ch (label (options q ! nat (ch - 1))))"
  using assms by (auto simp: answer_question_def answer_with_choice_def Let_def)

theorem choice_in_range_iff_witness:
  "fst (answer_question example_question (Some 4) None) = Error invalid_choice
   \<and> fst (answer_question example_question (Some 0) None) = Error invalid_choice
   \<and> fst (answer_question example_question (Some 3) None)
       = selected_option 3 (ascii ''Type something.'')"
  using choice_in_range_iff [of None 4 example_question]
        choice_in_range_iff [of None 0 example_question]
        choice_in_range_iff [of None 3 example_question]
  by (simp add: example_question_def)

section \<open>No checkbox, no question\<close>

lemma set_split_nl: "\<forall>l \<in> set (split_nl s). set l \<subseteq> set s"
proof (induction s)
  case Nil
  show ?case by simp
next
  case (Cons c cs)
  show ?case
  proof (cases "split_nl cs")
    case Nil
    then show ?thesis by simp
  next
    case (Cons x xs)
    with Cons.IH have "set x \<subseteq> set cs" and "\<forall>l \<in> set xs. set l \<subseteq> set cs"
      by simp_all
    with Cons show ?thesis by auto
  qed
qed

lemma find_header_none:
  "\<forall>l \<in> set ls. CHECKBOX_EMPTY \<notin> set l \<and> CHECKBOX_CHECKED \<notin> set l \<Longrightarrow> find_header ls i = None"
  by (induction ls arbitrary: i) auto

text \<open>
  C7. A text in which neither checkbox glyph occurs, on any line, parses to not found.
\<close>

theorem no_checkbox_not_found:
  assumes "CHECKBOX_EMPTY \<notin> set screen_text" and "CHECKBOX_CHECKED \<notin> set screen_text"
  shows "parse_multiple_choice screen_text = None"
proof -
  have "\<forall>l \<in> set (split_nl screen_text). CHECKBOX_EMPTY \<notin> set l \<and> CHECKBOX_CHECKED \<notin> set l"
    using assms set_split_nl by blast
  then have "find_header (split_nl screen_text) 0 = None"
    by (rule find_header_none)
  then show ?thesis by (simp add: parse_multiple_choice_def)
qed

theorem no_checkbox_not_found_witness:
  "parse_multiple_choice
     (ascii ''What should I work on?'' @ [10] @ [0x276F] @ ascii '' 1. Fix the bug'') = None"
  using no_checkbox_not_found
          [of "ascii ''What should I work on?'' @ [10] @ [0x276F] @ ascii '' 1. Fix the bug''"]
  by (simp add: ascii_def CHECKBOX_EMPTY_def CHECKBOX_CHECKED_def)

section \<open>What strip\_ansi removes\<close>

lemma re_match_ansi_not_esc: "c \<noteq> ESC \<Longrightarrow> re_match ansi_escape (c # cs) = None"
  by (simp add: re_match_def ansi_escape_def is_char_def)

lemma strip_ansi_keep: "c \<noteq> ESC \<Longrightarrow> strip_ansi (c # cs) = c # strip_ansi cs"
  by (simp add: strip_ansi.simps(2) re_match_ansi_not_esc)

lemma strip_ansi_no_esc: "ESC \<notin> set s \<Longrightarrow> strip_ansi s = s"
proof (induction s)
  case Nil
  show ?case by simp
next
  case (Cons c cs)
  then have "c \<noteq> ESC" and "strip_ansi cs = cs" by auto
  then show ?case by (simp add: strip_ansi_keep)
qed

lemma fe_not_bracket: "is_fe_byte b \<Longrightarrow> b \<noteq> 0x5B"
  by (auto simp: is_fe_byte_def in_range_def)

lemma re_match_ansi_fe:
  "is_fe_byte b \<Longrightarrow> re_match ansi_escape (ESC # b # cs) = Some ([ESC, b], [])"
  by (simp add: re_match_def ansi_escape_def is_char_def)

lemma strip_ansi_fe: "is_fe_byte b \<Longrightarrow> strip_ansi (ESC # b # cs) = strip_ansi cs"
  by (simp add: strip_ansi.simps(2) re_match_ansi_fe)

lemma re_match_ansi_other:
  "\<not> is_fe_byte b \<Longrightarrow> b \<noteq> 0x5B \<Longrightarrow> re_match ansi_escape (ESC # b # cs) = None"
  by (simp add: re_match_def ansi_escape_def is_char_def)

lemma strip_ansi_other:
  "\<not> is_fe_byte b \<Longrightarrow> b \<noteq> 0x5B \<Longrightarrow> strip_ansi (ESC # b # cs) = ESC # strip_ansi (b # cs)"
  by (simp add: strip_ansi.simps(2) re_match_ansi_other)

lemma star_runs_head:
  "\<forall>x \<in> set xs. p x \<Longrightarrow> \<not> p f \<Longrightarrow> \<exists>more. star_runs p (xs @ f # cs) = (xs, f # cs) # more"
  by (induction xs) auto

lemma rx_run_csi_tail:
  assumes "\<forall>x \<in> set ps. in_range 0x30 0x3F x"
      and "\<forall>x \<in> set ims. in_range 0x20 0x2F x"
      and "in_range 0x40 0x7E f"
  shows "\<exists>more. rx_run (Seq (Star (in_range 0x30 0x3F))
                        (Seq (Star (in_range 0x20 0x2F)) (Cls (in_range 0x40 0x7E))))
                   (ps @ ims @ f # cs) = (ps @ ims @ [f], [], cs) # more"
proof -
  have nf: "\<not> in_range 0x20 0x2F f" "\<not> in_range 0x30 0x3F f"
    using assms(3) by (auto simp: in_range_def)
  obtain m2 where m2: "star_runs (in_range 0x20 0x2F) (ims @ f # cs) = (ims, f # cs) # m2"
    using star_runs_head [OF assms(2) nf(1)] by blast
  have inner: "\<exists>more. rx_run (Seq (Star (in_range 0x20 0x2F)) (Cls (in_range 0x40 0x7E)))
                 (ims @ f # cs) = (ims @ [f], [], cs) # more"
    using m2 assms(3) by simp
  show ?thesis
  proof (cases ims)
    case Nil
    obtain m1 where m1: "star_runs (in_range 0x30 0x3F) (ps @ f # cs) = (ps, f # cs) # m1"
      using star_runs_head [OF assms(1) nf(2)] by blast
    from inner Nil obtain m3 where
      "rx_run (Seq (Star (in_range 0x20 0x2F)) (Cls (in_range 0x40 0x7E))) (f # cs)
         = ([f], [], cs) # m3" by auto
    with m1 Nil show ?thesis by simp
  next
    case (Cons i is')
    then have "\<not> in_range 0x30 0x3F i"
      using assms(2) by (auto simp: in_range_def)
    then obtain m1 where m1:
      "star_runs (in_range 0x30 0x3F) (ps @ i # is' @ f # cs) = (ps, i # is' @ f # cs) # m1"
      using star_runs_head [OF assms(1), of i "is' @ f # cs"] by blast
    from inner Cons obtain m3 where
      "rx_run (Seq (Star (in_range 0x20 0x2F)) (Cls (in_range 0x40 0x7E))) (i # is' @ f # cs)
         = (i # is' @ [f], [], cs) # m3" by auto
    with m1 Cons show ?thesis by simp
  qed
qed

lemma re_match_ansi_csi:
  assumes "\<forall>x \<in> set ps. in_range 0x30 0x3F x"
      and "\<forall>x \<in> set ims. in_range 0x20 0x2F x"
      and "in_range 0x40 0x7E f"
  shows "re_match ansi_escape (ESC # 0x5B # ps @ ims @ f # cs)
           = Some (ESC # 0x5B # ps @ ims @ [f], [])"
proof -
  obtain more where
    "rx_run (Seq (Star (in_range 0x30 0x3F))
                 (Seq (Star (in_range 0x20 0x2F)) (Cls (in_range 0x40 0x7E))))
            (ps @ ims @ f # cs) = (ps @ ims @ [f], [], cs) # more"
    using rx_run_csi_tail [OF assms] by blast
  then show ?thesis
    by (simp add: re_match_def ansi_escape_def is_char_def is_fe_byte_def in_range_def)
qed

lemma strip_ansi_csi:
  assumes "\<forall>x \<in> set ps. in_range 0x30 0x3F x"
      and "\<forall>x \<in> set ims. in_range 0x20 0x2F x"
      and "in_range 0x40 0x7E f"
  shows "strip_ansi (ESC # 0x5B # ps @ ims @ f # cs) = strip_ansi cs"
  by (simp add: strip_ansi.simps(2) re_match_ansi_csi [OF assms])


lemma star_runs_sound:
  "(t, r) \<in> set (star_runs p s) \<Longrightarrow> s = t @ r \<and> (\<forall>x \<in> set t. p x)"
  by (induction s arbitrary: t r) (auto split: if_splits)

lemma csi_tail_shape:
  assumes "m \<in> set (rx_run (Seq (Star (in_range 0x30 0x3F))
                           (Seq (Star (in_range 0x20 0x2F)) (Cls (in_range 0x40 0x7E)))) rest)"
  shows "\<exists>ps ims f cs. rest = ps @ ims @ f # cs
           \<and> (\<forall>x \<in> set ps. in_range 0x30 0x3F x)
           \<and> (\<forall>x \<in> set ims. in_range 0x20 0x2F x)
           \<and> in_range 0x40 0x7E f"
proof -
  from assms obtain ps r1 ims r2 where
    p: "(ps, r1) \<in> set (star_runs (in_range 0x30 0x3F) rest)"
    and i: "(ims, r2) \<in> set (star_runs (in_range 0x20 0x2F) r1)"
    and f: "rx_run (Cls (in_range 0x40 0x7E)) r2 \<noteq> []"
    by (fastforce simp del: star_runs.simps)
  from f obtain g cs where "r2 = g # cs" and "in_range 0x40 0x7E g"
    by (cases r2) (auto split: if_splits)
  with star_runs_sound [OF p] star_runs_sound [OF i] show ?thesis by blast
qed

lemma csi_shape_drop:
  assumes "\<forall>x \<in> set ps. in_range 0x30 0x3F x"
      and "\<forall>x \<in> set ims. in_range 0x20 0x2F x"
      and "in_range 0x40 0x7E f"
  shows "dropWhile (in_range 0x20 0x2F) (dropWhile (in_range 0x30 0x3F) (ps @ ims @ f # cs))
           = f # cs"
proof -
  have nf: "\<not> in_range 0x20 0x2F f" "\<not> in_range 0x30 0x3F f"
    using assms(3) by (auto simp: in_range_def)
  have ni: "\<forall>x \<in> set ims. \<not> in_range 0x30 0x3F x"
    using assms(2) by (auto simp: in_range_def)
  have "dropWhile (in_range 0x30 0x3F) (ims @ f # cs) = ims @ f # cs"
    using ni nf(2) by (cases ims) auto
  then have "dropWhile (in_range 0x30 0x3F) (ps @ ims @ f # cs) = ims @ f # cs"
    using assms(1) by (simp add: dropWhile_append2)
  moreover have "dropWhile (in_range 0x20 0x2F) (ims @ f # cs) = f # cs"
    using assms(2) nf(1) by (simp add: dropWhile_append2)
  ultimately show ?thesis by simp
qed

lemma ansi_bracket_runs:
  "rx_run (Seq (Cls (is_char ESC)) (Alt (Cls is_fe_byte) (Seq (Cls (is_char 0x5B)) tail)))
          (ESC # 0x5B # rest)
     = map (\<lambda>(t, g, r). (ESC # 0x5B # t, g, r)) (rx_run tail rest)"
  by (simp add: is_char_def is_fe_byte_def in_range_def comp_def case_prod_unfold)

lemma re_match_ansi_open:
  assumes "\<not> (\<exists>f cs. dropWhile (in_range 0x20 0x2F) (dropWhile (in_range 0x30 0x3F) rest)
                        = f # cs \<and> in_range 0x40 0x7E f)"
  shows "re_match ansi_escape (ESC # 0x5B # rest) = None"
proof -
  have "rx_run (Seq (Star (in_range 0x30 0x3F))
                    (Seq (Star (in_range 0x20 0x2F)) (Cls (in_range 0x40 0x7E)))) rest = []"
  proof (rule ccontr)
    assume "rx_run (Seq (Star (in_range 0x30 0x3F))
                    (Seq (Star (in_range 0x20 0x2F)) (Cls (in_range 0x40 0x7E)))) rest \<noteq> []"
    then obtain m where "m \<in> set (rx_run (Seq (Star (in_range 0x30 0x3F))
                    (Seq (Star (in_range 0x20 0x2F)) (Cls (in_range 0x40 0x7E)))) rest)"
      by (meson last_in_set)
    from csi_tail_shape [OF this] obtain ps ims f cs where
      "rest = ps @ ims @ f # cs" "\<forall>x \<in> set ps. in_range 0x30 0x3F x"
      "\<forall>x \<in> set ims. in_range 0x20 0x2F x" "in_range 0x40 0x7E f"
      by blast
    with csi_shape_drop [of ps ims f cs] assms show False by simp
  qed
  then have "rx_run ansi_escape (ESC # 0x5B # rest) = []"
    by (simp only: ansi_escape_def ansi_bracket_runs list.map)
  then show ?thesis
    by (simp only: re_match_def list.case)
qed

lemma strip_ansi_open:
  assumes "\<not> (\<exists>f cs. dropWhile (in_range 0x20 0x2F) (dropWhile (in_range 0x30 0x3F) rest)
                        = f # cs \<and> in_range 0x40 0x7E f)"
  shows "strip_ansi (ESC # 0x5B # rest) = ESC # strip_ansi (0x5B # rest)"
  by (simp add: strip_ansi.simps(2) re_match_ansi_open [OF assms])

lemma strip_ansi_closed:
  assumes "dropWhile (in_range 0x20 0x2F) (dropWhile (in_range 0x30 0x3F) rest) = f # cs"
      and "in_range 0x40 0x7E f"
  shows "strip_ansi (ESC # 0x5B # rest) = strip_ansi cs"
proof -
  let ?ps = "takeWhile (in_range 0x30 0x3F) rest"
  let ?r = "dropWhile (in_range 0x30 0x3F) rest"
  let ?ims = "takeWhile (in_range 0x20 0x2F) ?r"
  have "rest = ?ps @ ?ims @ f # cs"
    using assms(1) takeWhile_dropWhile_id [of "in_range 0x30 0x3F" rest]
          takeWhile_dropWhile_id [of "in_range 0x20 0x2F" ?r] by simp
  moreover have "\<forall>x \<in> set ?ps. in_range 0x30 0x3F x" "\<forall>x \<in> set ?ims. in_range 0x20 0x2F x"
    by (auto dest: set_takeWhileD)
  ultimately show ?thesis
    using strip_ansi_csi [of ?ps ?ims f cs] assms(2) by simp
qed

lemma strip_ansi_lone_esc: "strip_ansi [ESC] = [ESC]"
  by (simp add: strip_ansi.simps(2) re_match_def ansi_escape_def is_char_def)


lemma strip_ansi_csi_rest_Some:
  "csi_rest rest = Some after \<Longrightarrow> strip_ansi (ESC # 0x5B # rest) = strip_ansi after"
  using strip_ansi_closed [of rest]
  by (auto simp: csi_rest_def split: list.splits if_splits)

lemma strip_ansi_csi_rest_None:
  assumes "csi_rest rest = None"
  shows "strip_ansi (ESC # 0x5B # rest) = ESC # strip_ansi (0x5B # rest)"
proof (rule strip_ansi_open)
  show "\<not> (\<exists>f cs. dropWhile (in_range 0x20 0x2F) (dropWhile (in_range 0x30 0x3F) rest)
                       = f # cs \<and> in_range 0x40 0x7E f)"
  proof
    assume "\<exists>f cs. dropWhile (in_range 0x20 0x2F) (dropWhile (in_range 0x30 0x3F) rest)
                      = f # cs \<and> in_range 0x40 0x7E f"
    then obtain f cs where
      "dropWhile (in_range 0x20 0x2F) (dropWhile (in_range 0x30 0x3F) rest) = f # cs"
      and "in_range 0x40 0x7E f" by blast
    then have "csi_rest rest = Some cs" by (simp add: csi_rest_def)
    with assms show False by simp
  qed
qed

text \<open>
  C6, as the code has it. \<open>strip_ansi\<close> is total (it is a function defined by a
  terminating recursion) and removes exactly what its pattern recognises: an escape
  character followed by one byte of \<^verbatim>\<open>@\<close> to \<^verbatim>\<open>Z\<close> or backslash to underscore, and a
  CSI sequence (escape, opening bracket, parameter bytes \<^verbatim>\<open>0\<close> to \<^verbatim>\<open>?\<close>, intermediate bytes
  space to \<^verbatim>\<open>/\<close>, one final byte \<^verbatim>\<open>@\<close> to \<^verbatim>\<open>~\<close>). Everything else is kept: every
  character other than the escape character that no match covers, so that a text
  without an escape character (newlines, printable Unicode, the glyphs, raw control
  bytes) is unchanged; an escape character followed by any other byte, such as the
  opening parenthesis of a charset-shift sequence; an escape character that ends the
  input; and an escape character and bracket that are not completed to a CSI sequence.
  The cases of the theorem cover every input: the empty text, a first character that is
  not the escape character, the escape character alone, and the escape character
  followed by a byte of the first class, by the bracket (completed or not), or by any
  other character.
\<close>

theorem strip_ansi_recognised:
  "(c \<noteq> ESC \<longrightarrow> strip_ansi (c # cs) = c # strip_ansi cs)
   \<and> (ESC \<notin> set s \<longrightarrow> strip_ansi s = s)
   \<and> (is_fe_byte b \<longrightarrow> strip_ansi (ESC # b # cs) = strip_ansi cs)
   \<and> ((\<forall>x \<in> set ps. in_range 0x30 0x3F x) \<and> (\<forall>x \<in> set ims. in_range 0x20 0x2F x)
        \<and> in_range 0x40 0x7E f
        \<longrightarrow> strip_ansi (ESC # 0x5B # ps @ ims @ f # cs) = strip_ansi cs)
   \<and> (\<not> is_fe_byte b \<and> b \<noteq> 0x5B
        \<longrightarrow> strip_ansi (ESC # b # cs) = ESC # strip_ansi (b # cs))
   \<and> strip_ansi [] = []
   \<and> strip_ansi [ESC] = [ESC]
   \<and> (csi_rest rest = Some after \<longrightarrow> strip_ansi (ESC # 0x5B # rest) = strip_ansi after)
   \<and> (csi_rest rest = None
        \<longrightarrow> strip_ansi (ESC # 0x5B # rest) = ESC # strip_ansi (0x5B # rest))"
proof -
  have "strip_ansi [] = []" by simp
  then show ?thesis
    using strip_ansi_keep strip_ansi_no_esc strip_ansi_fe strip_ansi_csi strip_ansi_other
          strip_ansi_lone_esc strip_ansi_csi_rest_Some strip_ansi_csi_rest_None
    by blast
qed

theorem strip_ansi_recognised_witness:
  "strip_ansi ([10, 0x2610, 0x276F, 7]) = [10, 0x2610, 0x276F, 7]
   \<and> strip_ansi (ESC # 0x4D # ascii ''x'') = ascii ''x''
   \<and> strip_ansi (ESC # 0x5B # ascii ''31;1m'' @ ascii ''red'') = ascii ''red''
   \<and> strip_ansi (ESC # 0x28 # ascii ''B'') = ESC # 0x28 # ascii ''B''
   \<and> strip_ansi [ESC] = [ESC]
   \<and> csi_rest (ascii ''0 q!'') = Some (ascii ''!'')
   \<and> strip_ansi (ESC # 0x5B # ascii ''0 q!'') = ascii ''!''
   \<and> csi_rest (ascii ''12'') = None
   \<and> strip_ansi (ESC # 0x5B # ascii ''12'') = ESC # 0x5B # ascii ''12''
   \<and> csi_rest (ascii ''1'' @ [10] @ ascii ''m'') = None
   \<and> strip_ansi (ESC # 0x5B # ascii ''1'' @ [10] @ ascii ''m'')
       = ESC # 0x5B # ascii ''1'' @ [10] @ ascii ''m''"
proof -
  have a: "strip_ansi ([10, 0x2610, 0x276F, 7]) = [10, 0x2610, 0x276F, 7]"
    using strip_ansi_recognised [where s = "[10, 0x2610, 0x276F, 7]"]
    by (simp add: ESC_def)
  have x: "strip_ansi (ascii ''x'') = ascii ''x''" "strip_ansi (ascii ''red'') = ascii ''red''"
    "strip_ansi (0x28 # ascii ''B'') = 0x28 # ascii ''B''"
    "strip_ansi (ascii ''!'') = ascii ''!''"
    "strip_ansi (0x5B # ascii ''12'') = 0x5B # ascii ''12''"
    "strip_ansi (0x5B # ascii ''1'' @ [10] @ ascii ''m'') = 0x5B # ascii ''1'' @ [10] @ ascii ''m''"
    by (simp_all add: strip_ansi_no_esc ascii_def ESC_def)
  have b: "strip_ansi (ESC # 0x4D # ascii ''x'') = ascii ''x''"
    using strip_ansi_recognised [where b = "0x4D" and cs = "ascii ''x''"] x
    by (simp add: is_fe_byte_def in_range_def)
  have c: "strip_ansi (ESC # 0x5B # ascii ''31;1m'' @ ascii ''red'') = ascii ''red''"
    using strip_ansi_recognised [where ps = "ascii ''31;1''" and ims = "[]" and f = "0x6D"
            and cs = "ascii ''red''"] x
    by (simp add: in_range_def ascii_def)
  have d: "strip_ansi (ESC # 0x28 # ascii ''B'') = ESC # 0x28 # ascii ''B''"
    using strip_ansi_recognised [where b = "0x28" and cs = "ascii ''B''"] x
    by (simp add: is_fe_byte_def in_range_def)
  have e: "strip_ansi [ESC] = [ESC]"
    using strip_ansi_recognised by blast
  have r1: "csi_rest (ascii ''0 q!'') = Some (ascii ''!'')"
    by (simp add: csi_rest_def in_range_def ascii_def)
  have g: "strip_ansi (ESC # 0x5B # ascii ''0 q!'') = ascii ''!''"
    using strip_ansi_recognised [where rest = "ascii ''0 q!''" and after = "ascii ''!''"] r1 x
    by simp
  have r2: "csi_rest (ascii ''12'') = None"
    by (simp add: csi_rest_def in_range_def ascii_def)
  have h: "strip_ansi (ESC # 0x5B # ascii ''12'') = ESC # 0x5B # ascii ''12''"
    using strip_ansi_recognised [where rest = "ascii ''12''"] r2 x
    by simp
  have r3: "csi_rest (ascii ''1'' @ [10] @ ascii ''m'') = None"
    by (simp add: csi_rest_def in_range_def ascii_def)
  have i: "strip_ansi (ESC # 0x5B # ascii ''1'' @ [10] @ ascii ''m'')
             = ESC # 0x5B # ascii ''1'' @ [10] @ ascii ''m''"
    using strip_ansi_recognised [where rest = "ascii ''1'' @ [10] @ ascii ''m''"] r3 x
    by simp
  show ?thesis using a b c d e r1 g r2 h r3 i by blast
qed

text \<open>
  C6, as the specification states it, fails: of an OSC sequence only the two characters
  that introduce it are removed, its payload and the bell stay; a charset-shift sequence
  and raw control bytes stay as they are.
\<close>

theorem strip_ansi_keeps_osc_payload:
  "strip_ansi (ESC # ascii '']0;title'' @ [7] @ ascii ''ok'') = ascii ''0;title'' @ [7] @ ascii ''ok''
   \<and> strip_ansi (ESC # ascii ''(B'') = ESC # ascii ''(B''
   \<and> strip_ansi [7, 0, 8] = [7, 0, 8]"
  by (simp add: strip_ansi.simps(2) re_match_def ansi_escape_def class_defs ascii_def)

section \<open>The example session\<close>

lemma split_nl_nonempty: "split_nl s \<noteq> []"
  by (induction s) (auto split: list.splits)

lemma join_nl_Cons: "ls \<noteq> [] \<Longrightarrow> join_nl (l # ls) = l @ NL # join_nl ls"
  by (cases ls) auto

lemma join_nl_head: "join_nl ((c # l) # ls) = c # join_nl (l # ls)"
  by (cases ls) auto

lemma join_split_nl: "join_nl (split_nl s) = s"
proof (induction s)
  case Nil
  show ?case by simp
next
  case (Cons c cs)
  show ?case
  proof (cases "c = NL")
    case True
    then show ?thesis using Cons.IH by (simp add: join_nl_Cons split_nl_nonempty)
  next
    case False
    obtain l ls where "split_nl cs = l # ls"
      using split_nl_nonempty [of cs] by (cases "split_nl cs") auto
    then show ?thesis using False Cons.IH by (simp add: join_nl_head)
  qed
qed

lemma example_screen_text: "get_screen_text example_session = Some example_screen"
  by (simp add: get_screen_text_def example_session_def join_split_nl)

lemma example_no_esc: "strip_ansi example_screen = example_screen"
  by (rule strip_ansi_no_esc) (simp add: example_screen_def ascii_def ESC_def)

lemma example_target: "target_session example_env example_app None = Some example_session"
proof -
  have "SELECTOR \<in> set example_screen"
    by (simp add: example_screen_def SELECTOR_def)
  moreover have "session_id example_session \<noteq> own_session_id example_env"
    by (simp add: example_session_def own_session_id_def example_env_def ascii_def)
  ultimately show ?thesis
    by (simp add: target_session_def find_claude_session_def example_app_def example_screen_text)
qed

lemma send_answer_example:
  "send_answer example_env example_app choice text None
     = answer_question example_question choice text"
  by (simp add: send_answer_def example_target example_screen_text example_no_esc parse_example)

section \<open>Keys sent for a free-text target\<close>

text \<open>
  C3, as the code has it. On the documented example (selected index 0, free-text option
  at position 2), answering with the text "build a CLI" sends the replay of
  [MoveSelection(down, 2), Confirm, EmitText("build a CLI"), Confirm]: two down keys, one
  confirmation that enters text input, the literal text, and one confirmation that
  submits it.
\<close>

theorem free_text_keys_example:
  "send_answer example_env example_app None (Some (ascii ''build a CLI'')) None
     = (typed_text (ascii ''build a CLI''),
        replay [MoveSelection down 2, Confirm, EmitText (ascii ''build a CLI''), Confirm])
   \<and> replay [MoveSelection down 2, Confirm, EmitText (ascii ''build a CLI''), Confirm]
     = [KEY_DOWN, KEY_DOWN, ENTER, ascii ''build a CLI'', ENTER]"
  by (simp add: send_answer_example answer_question_def answer_with_text_def
      example_question_def navigate_def replay_def ascii_def numeral_2_eq_2)

text \<open>
  C3, as the specification states it, fails: the keys sent are not the replay of
  [MoveSelection(down, 2), Confirm, Confirm, EmitText("build a CLI"), Confirm]; only one
  confirmation precedes the text.
\<close>

theorem free_text_plan_counterexample:
  "snd (send_answer example_env example_app None (Some (ascii ''build a CLI'')) None)
     \<noteq> replay [MoveSelection down 2, Confirm, Confirm, EmitText (ascii ''build a CLI''),
                 Confirm]"
  by (simp add: send_answer_example answer_question_def answer_with_text_def
      example_question_def navigate_def replay_def ascii_def numeral_2_eq_2 ENTER_def)

section \<open>An invalid choice sends nothing\<close>

text \<open>
  C10. When no text is given, the session is located, its screen is read and parses to a
  question, and the 1-based choice is outside [1, number of options], \<open>send_answer\<close>
  returns the error \<open>invalid_choice\<close> and has sent nothing to the session: no arrow
  key, no confirmation, no text.
\<close>

theorem invalid_choice_sends_nothing:
  assumes "text = None \<or> text = Some []"
      and "target_session env a target_session_id = Some s"
      and "get_screen_text s = Some screen_text"
      and "parse_multiple_choice (strip_ansi screen_text) = Some q"
      and "ch < 1 \<or> int (length (options q)) < ch"
  shows "send_answer env a (Some ch) text target_session_id = (Error invalid_choice, [])"
  using assms by (auto simp: send_answer_def answer_question_def answer_with_choice_def)

theorem invalid_choice_sends_nothing_witness:
  "send_answer example_env example_app (Some 4) None None = (Error invalid_choice, [])
   \<and> send_answer example_env example_app (Some 0) (Some []) None = (Error invalid_choice, [])"
proof -
  have p: "parse_multiple_choice (strip_ansi example_screen) = Some example_question"
    by (simp add: example_no_esc parse_example)
  have n: "length (options example_question) = 3"
    by (simp add: example_question_def)
  have "send_answer example_env example_app (Some 4) None None = (Error invalid_choice, [])"
    using invalid_choice_sends_nothing [OF _ example_target example_screen_text p, of None 4] n
    by simp
  moreover
  have "send_answer example_env example_app (Some 0) (Some []) None = (Error invalid_choice, [])"
    using invalid_choice_sends_nothing [OF _ example_target example_screen_text p, of "Some []" 0]
    by simp
  ultimately show ?thesis by blast
qed

section \<open>The selected index is in range\<close>

lemma scan_inv_init: "scan_inv ([], 0, None)"
  by (simp add: scan_inv_def)

lemma scan_inv_new:
  assumes "scan_inv (opts, sel, cur)"
  shows "scan_inv ((case cur of Some c \<Rightarrow> opts @ [c] | None \<Rightarrow> opts),
                   (if selected then int (length (case cur of Some c \<Rightarrow> opts @ [c] | None \<Rightarrow> opts)) else sel),
                   Some \<lparr>number = n, label = lab, description = [],
                         is_selected = selected, is_text_input = ti\<rparr>)"
  using assms
  by (cases cur) (auto simp: scan_inv_def finished_def nth_append)

lemma scan_inv_desc:
  assumes "scan_inv (opts, sel, Some c)"
  shows "scan_inv (opts, sel, Some (add_description c d))"
  using assms
  by (auto simp: scan_inv_def finished_def nth_append add_description_def)

lemma scan_options_inv: "scan_inv st \<Longrightarrow> scan_inv (scan_options ls st)"
proof (induction ls st rule: scan_options.induct)
  case (1 st)
  then show ?case by simp
next
  case (2 line rest opts sel cur)
  show ?case
  proof (cases "py_in (ascii ''Enter to select'') line \<or> py_in (ascii ''Tab/Arrow'') line")
    case True
    then show ?thesis using "2.prems" by simp
  next
    case stop: False
    show ?thesis
    proof (cases "option_match line")
      case (Some m)
      obtain lead digits rest_text where m: "m = (lead, digits, rest_text)"
        by (cases m) auto
      show ?thesis
        using stop Some m "2.IH" scan_inv_new [OF "2.prems"]
        by (simp add: Let_def)
    next
      case None
      show ?thesis
      proof (cases cur)
        case N: None
        then show ?thesis using stop None "2.IH" "2.prems" by simp
      next
        case (Some c)
        then show ?thesis
          using stop None "2.IH" "2.prems" scan_inv_desc by (simp split: if_splits)
      qed
    qed
  qed
qed


lemma parse_unmarked: "parse_multiple_choice unmarked_screen = Some unmarked_question"
  by (simp add: unmarked_screen_def unmarked_question_def parse_defs class_defs upt_rec)

text \<open>
  C5. When the parser returns a question, its list of options is not empty and its
  selected index is at least 0 and less than the number of options; it is 0 when no
  option carries the selector.
\<close>

theorem parse_selected_in_range:
  assumes "parse_multiple_choice screen_text = Some q"
  shows "options q \<noteq> []
       \<and> 0 \<le> selected_index q
       \<and> selected_index q < int (length (options q))
       \<and> ((\<forall>opt \<in> set (options q). \<not> is_selected opt) \<longrightarrow> selected_index q = 0)"
proof -
  from assms obtain hdr hi qu qi opts sel cur where
    scan: "scan_options (drop (Suc qi) (split_nl screen_text)) ([], 0, None) = (opts, sel, cur)"
    and ne: "finished (opts, sel, cur) \<noteq> []"
    and q: "q = \<lparr>header = hdr, question = qu, options = finished (opts, sel, cur),
                 selected_index = sel,
                 has_text_option = list_ex is_text_input (finished (opts, sel, cur))\<rparr>"
    by (auto simp: parse_multiple_choice_def finished_def Let_def
             split: option.splits prod.splits if_splits)
  have "scan_inv (opts, sel, cur)"
    using scan_options_inv [OF scan_inv_init] scan by metis
  then have sel: "0 \<le> sel"
    and alt: "sel = 0 \<or> (sel < int (length (finished (opts, sel, cur)))
                          \<and> is_selected (finished (opts, sel, cur) ! nat sel))"
    by (auto simp: scan_inv_def)
  have lt: "sel < int (length (finished (opts, sel, cur)))"
    using alt ne by auto
  have "(\<forall>opt \<in> set (finished (opts, sel, cur)). \<not> is_selected opt) \<longrightarrow> sel = 0"
  proof
    assume none: "\<forall>opt \<in> set (finished (opts, sel, cur)). \<not> is_selected opt"
    show "sel = 0"
    proof (rule ccontr)
      assume "sel \<noteq> 0"
      with alt have "nat sel < length (finished (opts, sel, cur))"
        and "is_selected (finished (opts, sel, cur) ! nat sel)" using sel by auto
      with none show False using nth_mem by blast
    qed
  qed
  with ne sel lt show ?thesis by (simp add: q)
qed

theorem parse_selected_in_range_witness:
  "options example_question \<noteq> []
   \<and> 0 \<le> selected_index example_question
   \<and> selected_index example_question < int (length (options example_question))
   \<and> map is_selected (options unmarked_question) = [False, False]
   \<and> selected_index unmarked_question = 0"
proof -
  have m: "map is_selected (options unmarked_question) = [False, False]"
    by (simp add: unmarked_question_def)
  then have u: "\<forall>opt \<in> set (options unmarked_question). \<not> is_selected opt"
    by (simp add: unmarked_question_def)
  show ?thesis
    using parse_selected_in_range [OF parse_example]
          parse_selected_in_range [OF parse_unmarked] u m
    by blast
qed

section \<open>A session that cannot be read is skipped\<close>

lemma find_in_sessions_append:
  "find_in_sessions own (xs @ ys) =
     (case find_in_sessions own xs of Some s \<Rightarrow> Some s | None \<Rightarrow> find_in_sessions own ys)"
  by (induction xs) (auto split: option.splits)

lemma find_in_tabs_concat: "find_in_tabs own tabs = find_in_sessions own (concat tabs)"
  by (induction tabs) (auto simp: find_in_sessions_append split: option.splits)

lemma find_in_tabs_append:
  "find_in_tabs own (xs @ ys) =
     (case find_in_tabs own xs of Some s \<Rightarrow> Some s | None \<Rightarrow> find_in_tabs own ys)"
  by (induction xs) (auto split: option.splits)

lemma find_in_windows_concat:
  "find_in_windows own a = find_in_sessions own (concat (concat a))"
  by (induction a) (auto simp: find_in_sessions_append find_in_tabs_concat split: option.splits)

lemma find_not_prompt_like:
  "\<forall>s \<in> set xs. \<not> prompt_like own s \<Longrightarrow> find_in_sessions own xs = None"
  by (induction xs) (auto simp: prompt_like_def split: option.splits)

lemma find_prompt_like:
  "prompt_like own t \<Longrightarrow> find_in_sessions own (t # post) = Some t"
  by (auto simp: prompt_like_def split: option.splits)

lemma find_skip_failed:
  "contents f = None \<Longrightarrow> find_in_sessions own (pre @ f # rest) = find_in_sessions own (pre @ rest)"
  by (simp add: find_in_sessions_append get_screen_text_def split: option.splits)

lemma watch_sessions_append:
  "watch_sessions own once (xs @ ys) st =
     (case watch_sessions own once xs st of
        (st', True) \<Rightarrow> (st', True)
      | (st', False) \<Rightarrow> watch_sessions own once ys st')"
  by (induction xs arbitrary: st) (auto split: prod.splits bool.splits)

lemma watch_tabs_concat: "watch_tabs own once tabs st = watch_sessions own once (concat tabs) st"
  by (induction tabs arbitrary: st) (auto simp: watch_sessions_append split: prod.splits bool.splits)

lemma watch_windows_concat:
  "watch_windows own once a st = watch_sessions own once (concat (concat a)) st"
  by (induction a arbitrary: st)
     (auto simp: watch_sessions_append watch_tabs_concat split: prod.splits bool.splits)

lemma watch_session_failed: "contents f = None \<Longrightarrow> watch_session own once f st = (st, False)"
  by (simp add: watch_session_def get_screen_text_def)

lemma watch_skip_failed:
  "contents f = None \<Longrightarrow>
   watch_sessions own once (pre @ f # rest) st = watch_sessions own once (pre @ rest) st"
  by (simp add: watch_sessions_append watch_session_failed split: prod.splits bool.splits)

lemma example_prompt_like: "prompt_like (own_session_id example_env) example_session"
proof -
  have "SELECTOR \<in> set example_screen"
    by (simp add: example_screen_def SELECTOR_def)
  moreover have "session_id example_session \<noteq> own_session_id example_env"
    by (simp add: example_session_def own_session_id_def example_env_def ascii_def)
  ultimately show ?thesis
    by (simp add: prompt_like_def example_screen_text)
qed

text \<open>
  C8. A session \<open>f\<close> whose read raises is skipped, in the search for a session and in
  a tick of the watch loop alike: the result is that of scanning the other sessions, in
  the order windows, tabs, sessions. In particular, when a session \<open>t\<close> after \<open>f\<close> passes
  the test of the search (it is not the caller's own and its screen shows the selector or
  the checkbox) and no session before \<open>t\<close> passes it, the search returns \<open>t\<close>.
\<close>

theorem failed_session_is_skipped:
  assumes "contents f = None"
  shows "(concat (concat a) = pre @ f # rest \<longrightarrow>
            find_claude_session env a = find_in_sessions (own_session_id env) (pre @ rest)
          \<and> watch_windows own once a st = watch_sessions own once (pre @ rest) st)
       \<and> (concat (concat a) = pre @ f # mid @ t # post
            \<and> (\<forall>s \<in> set (pre @ mid). \<not> prompt_like (own_session_id env) s)
            \<and> prompt_like (own_session_id env) t
          \<longrightarrow> find_claude_session env a = Some t)"
proof (intro conjI impI)
  assume "concat (concat a) = pre @ f # rest"
  then show "find_claude_session env a = find_in_sessions (own_session_id env) (pre @ rest)"
    by (simp add: find_claude_session_def find_in_windows_concat find_skip_failed [OF assms])
next
  assume "concat (concat a) = pre @ f # rest"
  then show "watch_windows own once a st = watch_sessions own once (pre @ rest) st"
    by (simp add: watch_windows_concat watch_skip_failed [OF assms])
next
  assume h: "concat (concat a) = pre @ f # mid @ t # post
            \<and> (\<forall>s \<in> set (pre @ mid). \<not> prompt_like (own_session_id env) s)
            \<and> prompt_like (own_session_id env) t"
  then have "find_in_sessions (own_session_id env) (pre @ mid) = None"
    using find_not_prompt_like by blast
  moreover have "find_in_sessions (own_session_id env) (t # post) = Some t"
    using h find_prompt_like by blast
  ultimately have "find_in_sessions (own_session_id env) ((pre @ mid) @ t # post) = Some t"
    by (simp only: find_in_sessions_append option.case)
  moreover have "find_claude_session env a
                   = find_in_sessions (own_session_id env) (pre @ (mid @ t # post))"
    using h by (simp add: find_claude_session_def find_in_windows_concat find_skip_failed [OF assms])
  ultimately show "find_claude_session env a = Some t" by simp
qed

theorem failed_session_is_skipped_witness:
  "contents failing_session = None
   \<and> concat (concat failing_app) = [] @ failing_session # [] @ example_session # []
   \<and> find_claude_session example_env failing_app = Some example_session
   \<and> watch_windows (own_session_id example_env) False failing_app
        \<lparr>seen_questions = {}, printed = []\<rparr>
       = watch_sessions (own_session_id example_env) False [example_session]
        \<lparr>seen_questions = {}, printed = []\<rparr>"
proof -
  have f: "contents failing_session = None"
    by (simp add: failing_session_def)
  have c: "concat (concat failing_app) = [] @ failing_session # [] @ example_session # []"
    by (simp add: failing_app_def)
  have c': "concat (concat failing_app) = [] @ failing_session # [example_session]"
    by (simp add: failing_app_def)
  have e: "\<forall>s \<in> set ([] @ []). \<not> prompt_like (own_session_id example_env) s"
    by simp
  note skipped =
    failed_session_is_skipped [OF f, of failing_app "[]" "[example_session]" example_env
      "own_session_id example_env" False "\<lparr>seen_questions = {}, printed = []\<rparr>"
      "[]" example_session "[]"]
  have found: "find_claude_session example_env failing_app = Some example_session"
    using skipped c e example_prompt_like by blast
  have "watch_windows (own_session_id example_env) False failing_app
          \<lparr>seen_questions = {}, printed = []\<rparr>
        = watch_sessions (own_session_id example_env) False ([] @ [example_session])
          \<lparr>seen_questions = {}, printed = []\<rparr>"
    using skipped c' by blast
  then have watched: "watch_windows (own_session_id example_env) False failing_app
          \<lparr>seen_questions = {}, printed = []\<rparr>
        = watch_sessions (own_session_id example_env) False [example_session]
          \<lparr>seen_questions = {}, printed = []\<rparr>"
    by (simp only: append_Nil)
  show ?thesis using f c found watched by blast
qed

section \<open>A question is reported once\<close>

lemma watch_session_alt:
  "watch_session own once s st =
     (case session_question own s of
        None \<Rightarrow> (st, False)
      | Some q \<Rightarrow>
          if question_key s q \<notin> seen_questions st
          then (st\<lparr>seen_questions := insert (question_key s q) (seen_questions st),
                   printed := printed st @ [(session_id s, q)]\<rparr>, once)
          else (st, False))"
  by (simp add: watch_session_def session_question_def split: option.splits)

lemma watch_session_seen:
  assumes "watch_session own once s st = (st', False)"
  shows "seen_questions st \<subseteq> seen_questions st'"
    and "session_question own s = Some q \<Longrightarrow> question_key s q \<in> seen_questions st'"
  using assms by (auto simp: watch_session_alt split: option.splits if_splits)

lemma watch_sessions_seen:
  "watch_sessions own once ss st = (st', False) \<Longrightarrow>
   seen_questions st \<subseteq> seen_questions st'
   \<and> (\<forall>s \<in> set ss. \<forall>q. session_question own s = Some q
         \<longrightarrow> question_key s q \<in> seen_questions st')"
proof (induction ss arbitrary: st)
  case Nil
  then show ?case by simp
next
  case (Cons s ss)
  obtain st1 r1 where step: "watch_session own once s st = (st1, r1)"
    by (cases "watch_session own once s st") auto
  with Cons.prems have r1: "r1 = False" and rest: "watch_sessions own once ss st1 = (st', False)"
    by (auto split: bool.splits)
  from step r1 have s1: "seen_questions st \<subseteq> seen_questions st1"
    and k1: "\<And>q. session_question own s = Some q \<Longrightarrow> question_key s q \<in> seen_questions st1"
    using watch_session_seen by blast+
  from Cons.IH [OF rest] have t: "seen_questions st1 \<subseteq> seen_questions st'"
    and k2: "\<forall>s \<in> set ss. \<forall>q. session_question own s = Some q
               \<longrightarrow> question_key s q \<in> seen_questions st'"
    by blast+
  show ?case using s1 t k1 k2 by auto
qed

lemma watch_sessions_all_seen:
  "\<forall>s \<in> set ss. \<forall>q. session_question own s = Some q \<longrightarrow> question_key s q \<in> seen_questions st
   \<Longrightarrow> watch_sessions own once ss st = (st, False)"
  by (induction ss) (auto simp: watch_session_alt split: option.splits)

lemma watch_sessions_again:
  assumes "watch_sessions own once ss st = (st', False)"
  shows "watch_sessions own once ss st' = (st', False)"
  using watch_sessions_seen [OF assms] watch_sessions_all_seen by blast

lemma watch_ticks_again: "watch_ticks own once [a, a] st = watch_ticks own once [a] st"
proof -
  obtain st' r where w: "watch_windows own once a st = (st', r)"
    by (cases "watch_windows own once a st") auto
  show ?thesis
  proof (cases r)
    case True
    with w show ?thesis by simp
  next
    case False
    with w have "watch_sessions own once (concat (concat a)) st = (st', False)"
      by (simp add: watch_windows_concat)
    then have "watch_windows own once a st' = (st', False)"
      using watch_sessions_again by (simp add: watch_windows_concat)
    with w False show ?thesis by simp
  qed
qed

lemma watch_single_session:
  assumes "session_question (own_session_id env) s = Some q"
  shows "printed (watch_for_questions env once [[[[s]]], [[[s]]]]) = [(session_id s, q)]"
  using assms by (cases once) (simp_all add: watch_for_questions_def watch_session_alt)

lemma example_session_question:
  "session_question (own_session_id example_env) example_session = Some example_question"
proof -
  have "session_id example_session \<noteq> own_session_id example_env"
    by (simp add: example_session_def own_session_id_def example_env_def ascii_def)
  then show ?thesis
    by (simp add: session_question_def example_screen_text example_no_esc parse_example)
qed

text \<open>
  C9. In the watch loop an event is printed for a session and its question only when the
  key of the two is not yet in the set of reported keys, and the key is then added; a
  key that is already in the set prints nothing. Hence a second tick over the same
  screens changes nothing, and two successive ticks that show the same question in the
  same session print exactly one event.
\<close>

theorem watch_reports_each_key_once:
  "(watch_session own once s st = (st', r) \<and> printed st' \<noteq> printed st \<longrightarrow>
      (\<exists>q. session_question own s = Some q
          \<and> question_key s q \<notin> seen_questions st
          \<and> seen_questions st' = insert (question_key s q) (seen_questions st)
          \<and> printed st' = printed st @ [(session_id s, q)]))
   \<and> (session_question own s = Some q \<and> question_key s q \<in> seen_questions st \<longrightarrow>
        watch_session own once s st = (st, False))
   \<and> watch_ticks own once [a, a] st = watch_ticks own once [a] st
   \<and> (session_question (own_session_id env) t = Some u \<longrightarrow>
        printed (watch_for_questions env once [[[[t]]], [[[t]]]]) = [(session_id t, u)])"
proof (intro conjI impI)
  assume "watch_session own once s st = (st', r) \<and> printed st' \<noteq> printed st"
  then show "\<exists>q. session_question own s = Some q
          \<and> question_key s q \<notin> seen_questions st
          \<and> seen_questions st' = insert (question_key s q) (seen_questions st)
          \<and> printed st' = printed st @ [(session_id s, q)]"
    by (auto simp: watch_session_alt split: option.splits if_splits)
next
  assume "session_question own s = Some q \<and> question_key s q \<in> seen_questions st"
  then show "watch_session own once s st = (st, False)"
    by (simp add: watch_session_alt)
next
  show "watch_ticks own once [a, a] st = watch_ticks own once [a] st"
    by (rule watch_ticks_again)
next
  assume "session_question (own_session_id env) t = Some u"
  then show "printed (watch_for_questions env once [[[[t]]], [[[t]]]]) = [(session_id t, u)]"
    by (rule watch_single_session)
qed

theorem watch_reports_each_key_once_witness:
  "session_question (own_session_id example_env) example_session = Some example_question
   \<and> printed (watch_for_questions example_env False [example_app, example_app])
       = [(ascii ''S1'', example_question)]
   \<and> length (printed (watch_for_questions example_env False [example_app, example_app])) = 1
   \<and> watch_session (own_session_id example_env) False example_session
        \<lparr>seen_questions = {question_key example_session example_question},
         printed = [(ascii ''S1'', example_question)]\<rparr>
       = (\<lparr>seen_questions = {question_key example_session example_question},
           printed = [(ascii ''S1'', example_question)]\<rparr>, False)"
proof -
  have "printed (watch_for_questions example_env False
                   [[[[example_session]]], [[[example_session]]]])
          = [(session_id example_session, example_question)]"
    using watch_reports_each_key_once [where env = example_env and t = example_session
            and u = example_question and once = False] example_session_question
    by blast
  then have twice: "printed (watch_for_questions example_env False [example_app, example_app])
                      = [(ascii ''S1'', example_question)]"
    by (simp add: example_app_def example_session_def)
  have seen: "question_key example_session example_question
                \<in> seen_questions \<lparr>seen_questions = {question_key example_session example_question},
                                   printed = [(ascii ''S1'', example_question)]\<rparr>"
    by simp
  have again: "watch_session (own_session_id example_env) False example_session
        \<lparr>seen_questions = {question_key example_session example_question},
         printed = [(ascii ''S1'', example_question)]\<rparr>
       = (\<lparr>seen_questions = {question_key example_session example_question},
           printed = [(ascii ''S1'', example_question)]\<rparr>, False)"
    using watch_reports_each_key_once [where own = "own_session_id example_env"
            and s = example_session and q = example_question and once = False
            and st = "\<lparr>seen_questions = {question_key example_session example_question},
                       printed = [(ascii ''S1'', example_question)]\<rparr>"]
          example_session_question seen
    by blast
  show ?thesis using example_session_question twice again by simp
qed

end
